theory Spec2Isabelle
  imports Main "HOL-Library.Word" "HOL-Library.Sublist"
begin

section \<open>Result codes and outcomes\<close>

text \<open>
  The result codes \<open>ARROWINT64\<close>, \<open>ARROWERROR\<close>, ... are macros of \<open>ArrowFunctions.h\<close>.
  Their numeric values are not part of \<open>ArrowFunctions.cpp\<close>, so they are a parameter of
  every function that mentions them; nothing is assumed about them unless a theorem says so.
\<close>

record arrow_defs =
  ARROWINT64 :: int
  ARROWINT32 :: int
  ARROWUINT64 :: int
  ARROWTIMESTAMP :: int
  ARROWUNDEFINED :: int
  ARROWERROR :: int

text \<open>
  How a C++ call ends: it returns a value, a C++ exception leaves the function
  (\<open>Throw\<close>, with the exception's message), or the call has undefined behaviour
  (an access outside the caller's array, a \<open>static_cast\<close> to the wrong reader class).
  A call that never returns is the value \<open>None\<close> of the enclosing option.
\<close>

datatype 'a outcome = Return 'a | Throw string | Undefined

section \<open>The Parquet library, as far as the functions use it\<close>

datatype parquet_type = PQ_INT32 | PQ_INT64 | PQ_OTHER

datatype converted_type = CT_NONE | CT_UINT_64 | CT_TIMESTAMP | CT_OTHER

text \<open>The \<open>arrow::Type\<close> ids that \<open>cpp_getType\<close> tests.\<close>

datatype arrow_type = INT64 | INT32 | UINT64 | TIMESTAMP | OTHER_TYPE

record column =
  col_name :: string
  col_phys :: parquet_type
  col_conv :: converted_type

text \<open>The stored values of one column in one row group, in the column's physical width.\<close>

datatype chunk = Int64Chunk "64 word list" | Int32Chunk "32 word list" | OtherChunk

record row_group =
  rg_rows :: nat
  rg_chunks :: "chunk list"

record parquet_file =
  schema :: "column list"
  row_groups :: "row_group list"

text \<open>
  What a path holds when it is opened for reading: \<open>ReadableFile::Open\<close> fails,
  \<open>parquet::arrow::OpenFile\<close> fails, \<open>GetSchema\<close> fails, or all three succeed.
\<close>

datatype fs_entry =
    Unopenable string
  | Unparsable string
  | Unconvertible parquet_file string
  | Parquet parquet_file

type_synonym file_system = "string \<Rightarrow> fs_entry"

text \<open>The schema conversion of the library: the Arrow type of a Parquet column.\<close>

fun arrow_type_of :: "parquet_type \<Rightarrow> converted_type \<Rightarrow> arrow_type" where
  "arrow_type_of PQ_INT64 CT_NONE = INT64"
| "arrow_type_of PQ_INT64 CT_UINT_64 = UINT64"
| "arrow_type_of PQ_INT64 CT_TIMESTAMP = TIMESTAMP"
| "arrow_type_of PQ_INT32 CT_NONE = INT32"
| "arrow_type_of _ _ = OTHER_TYPE"

text \<open>Position of the first column with the given name, \<open>-1\<close> when there is none.\<close>

fun field_index :: "column list \<Rightarrow> string \<Rightarrow> int" where
  "field_index [] nm = -1"
| "field_index (c # cs) nm =
     (if col_name c = nm then 0
      else (let r = field_index cs nm in if r < 0 then -1 else r + 1))"

definition GetFieldIndex :: "column list \<Rightarrow> string \<Rightarrow> int" where
  "GetFieldIndex sc colname = field_index sc colname"

definition ColumnIndex :: "column list \<Rightarrow> string \<Rightarrow> int" where
  "ColumnIndex sc colname = field_index sc colname"

text \<open>\<open>metadata()->num_rows()\<close>: the rows of all row groups.\<close>

definition num_rows :: "parquet_file \<Rightarrow> int" where
  "num_rows f = int (sum_list (map rg_rows (row_groups f)))"

definition num_row_groups :: "parquet_file \<Rightarrow> nat" where
  "num_row_groups f = length (row_groups f)"

text \<open>\<open>RowGroupReader::Column(idx)\<close>: the chunk, or no chunk when the index is out of range.\<close>

definition Column :: "row_group \<Rightarrow> int \<Rightarrow> chunk option" where
  "Column rg idx =
     (if 0 \<le> idx \<and> nat idx < length (rg_chunks rg) then Some (rg_chunks rg ! nat idx) else None)"

text \<open>
  \<open>ReadBatch(batchSize, ...)\<close> on a reader with the values \<open>rem\<close> left: the number of
  values it delivers, at most \<open>batchSize\<close> and at most what is left.
\<close>

definition ReadBatch :: "int \<Rightarrow> 'a list \<Rightarrow> nat" where
  "ReadBatch batchSize rem = min (nat batchSize) (length rem)"

text \<open>Writing the values \<open>vs\<close> into the array \<open>arr\<close> from position \<open>i\<close> on.\<close>

definition store :: "'a list \<Rightarrow> nat \<Rightarrow> 'a list \<Rightarrow> 'a list" where
  "store arr i vs = take i arr @ vs @ drop (i + length vs) arr"

section \<open>cpp_getNumRows and cpp_getType\<close>

text \<open>
  Both return the result code (or row count) and what they stored in \<open>*errMsg\<close>
  (\<open>None\<close>: \<open>*errMsg\<close> was not written).
\<close>

definition cpp_getNumRows :: "arrow_defs \<Rightarrow> file_system \<Rightarrow> string \<Rightarrow> int \<times> string option" where
  "cpp_getNumRows k fs filename =
     (case fs filename of
        Unopenable m \<Rightarrow> (ARROWERROR k, Some m)
      | Unparsable m \<Rightarrow> (ARROWERROR k, Some m)
      | Unconvertible f m \<Rightarrow> (num_rows f, None)
      | Parquet f \<Rightarrow> (num_rows f, None))"

definition type_code :: "arrow_defs \<Rightarrow> arrow_type \<Rightarrow> int" where
  "type_code k t =
     (if t = INT64 then ARROWINT64 k
      else if t = INT32 then ARROWINT32 k
      else if t = UINT64 then ARROWUINT64 k
      else if t = TIMESTAMP then ARROWTIMESTAMP k
      else ARROWUNDEFINED k)"

definition not_found_msg :: "string \<Rightarrow> string \<Rightarrow> string" where
  "not_found_msg dname fname = ''Dataset: '' @ dname @ '' does not exist in file: '' @ fname"

definition cpp_getType :: "arrow_defs \<Rightarrow> file_system \<Rightarrow> string \<Rightarrow> string \<Rightarrow> int \<times> string option" where
  "cpp_getType k fs filename colname =
     (case fs filename of
        Unopenable m \<Rightarrow> (ARROWERROR k, Some m)
      | Unparsable m \<Rightarrow> (ARROWERROR k, Some m)
      | Unconvertible f m \<Rightarrow> (ARROWERROR k, Some m)
      | Parquet f \<Rightarrow>
          (let idx = GetFieldIndex (schema f) colname in
           if idx = -1 then (ARROWERROR k, Some (not_found_msg colname filename))
           else (let c = schema f ! nat idx in
                 (type_code k (arrow_type_of (col_phys c) (col_conv c)), None))))"

section \<open>cpp_readColumnByName\<close>

text \<open>
  The \<open>while (reader->HasNext())\<close> loop of the Int64 and UInt64 branches: the library
  writes the batch straight into \<open>chpl_ptr\<close> at \<open>i\<close>. A write that leaves the caller's
  array is undefined behaviour.
\<close>

partial_function (option) readInt64 ::
  "int \<Rightarrow> 64 word list \<Rightarrow> 64 word list \<Rightarrow> nat \<Rightarrow> (64 word list \<times> nat) outcome option" where
  "readInt64 batchSize rem chpl_ptr i =
     (if rem \<noteq> [] then
        (let values_read = ReadBatch batchSize rem in
         if length chpl_ptr < i + values_read then Some Undefined
         else readInt64 batchSize (drop values_read rem)
                (store chpl_ptr i (take values_read rem)) (i + values_read))
      else Some (Return (chpl_ptr, i)))"

text \<open>The \<open>for (j ...)\<close> loop of the Int32 branch: \<open>chpl_ptr[i+j] = (int64_t)tmpArr[j]\<close>.\<close>

primrec widen :: "32 word list \<Rightarrow> 64 word list \<Rightarrow> nat \<Rightarrow> 64 word list" where
  "widen [] chpl_ptr p = chpl_ptr"
| "widen (x # tmpArr) chpl_ptr p = widen tmpArr (chpl_ptr[p := scast x]) (Suc p)"

text \<open>
  Line 154: \<open>tmpArr = (int32_t*)malloc(batchSize * sizeof(int32_t))\<close>, with no check of
  the result. The product is computed in \<open>size_t\<close> (64 bits), so it wraps around;
  \<open>malloc n\<close> tells whether the allocation of \<open>n\<close> bytes succeeds. The result is the
  number of 32-bit elements that \<open>tmpArr\<close> can hold: none for a null pointer or an
  allocation of zero bytes.
\<close>

definition tmpArr_capacity :: "(nat \<Rightarrow> bool) \<Rightarrow> int \<Rightarrow> nat" where
  "tmpArr_capacity malloc batchSize =
     (let bytes = (nat (batchSize mod 2 ^ 64) * 4) mod 2 ^ 64
      in if malloc bytes then bytes div 4 else 0)"

text \<open>
  The \<open>while (reader->HasNext())\<close> loop of the Int32 branch: the library writes the
  batch into \<open>tmpArr\<close>, which holds \<open>cap\<close> elements, and the \<open>for (j ...)\<close> loop
  copies it into \<open>chpl_ptr\<close>. A write past the end of \<open>tmpArr\<close> (or through a null
  \<open>tmpArr\<close>) or past the end of the caller's array is undefined behaviour.
\<close>

partial_function (option) readInt32 ::
  "nat \<Rightarrow> int \<Rightarrow> 32 word list \<Rightarrow> 64 word list \<Rightarrow> nat \<Rightarrow> (64 word list \<times> nat) outcome option" where
  "readInt32 cap batchSize rem chpl_ptr i =
     (if rem \<noteq> [] then
        (let values_read = ReadBatch batchSize rem;
             tmpArr = take values_read rem in
         if cap < values_read then Some Undefined
         else if length chpl_ptr < i + values_read then Some Undefined
         else readInt32 cap batchSize (drop values_read rem)
                (widen tmpArr chpl_ptr i) (i + values_read))
      else Some (Return (chpl_ptr, i)))"

text \<open>
  The three branches on \<open>ty\<close> for one row group; \<open>malloc\<close> is the allocator as this
  row group finds it. The reader is \<open>static_cast\<close> to \<open>Int64Reader\<close> or
  \<open>Int32Reader\<close>; on a chunk of another physical type that is undefined behaviour.
\<close>

definition readChunk ::
  "arrow_defs \<Rightarrow> (nat \<Rightarrow> bool) \<Rightarrow> int \<Rightarrow> int \<Rightarrow> chunk \<Rightarrow> 64 word list \<Rightarrow> nat \<Rightarrow>
   (64 word list \<times> nat) outcome option" where
  "readChunk k malloc ty batchSize ch chpl_ptr i =
     (if ty = ARROWINT64 k then
        (case ch of Int64Chunk vs \<Rightarrow> readInt64 batchSize vs chpl_ptr i | _ \<Rightarrow> Some Undefined)
      else if ty = ARROWUINT64 k then
        (case ch of Int64Chunk vs \<Rightarrow> readInt64 batchSize vs chpl_ptr i | _ \<Rightarrow> Some Undefined)
      else
        (case ch of
           Int32Chunk vs \<Rightarrow> readInt32 (tmpArr_capacity malloc batchSize) batchSize vs chpl_ptr i
         | _ \<Rightarrow> Some Undefined))"

text \<open>
  The \<open>for (r ...)\<close> loop over the row groups, from row group number \<open>r\<close> on;
  \<open>mem r n\<close> tells whether the allocation of \<open>n\<close> bytes made for row group \<open>r\<close>
  succeeds. The result is the return code, \<open>*errMsg\<close> and the caller's array.
\<close>

fun readRowGroups ::
  "arrow_defs \<Rightarrow> (nat \<Rightarrow> nat \<Rightarrow> bool) \<Rightarrow> int \<Rightarrow> column list \<Rightarrow> string \<Rightarrow> string \<Rightarrow> int \<Rightarrow>
   string option \<Rightarrow> nat \<Rightarrow> row_group list \<Rightarrow> 64 word list \<Rightarrow> nat \<Rightarrow>
   (int \<times> string option \<times> 64 word list) outcome option" where
  "readRowGroups k mem ty sc filename colname batchSize err r [] chpl_ptr i =
     Some (Return (0, err, chpl_ptr))"
| "readRowGroups k mem ty sc filename colname batchSize err r (rg # rgs) chpl_ptr i =
     (let idx = ColumnIndex sc colname in
      if idx < 0 then Some (Return (ARROWERROR k, Some (not_found_msg colname filename), chpl_ptr))
      else
        (case Column rg idx of
           None \<Rightarrow> Some (Throw ''column index out of range'')
         | Some ch \<Rightarrow>
             (case readChunk k (mem r) ty batchSize ch chpl_ptr i of
                None \<Rightarrow> None
              | Some (Return (chpl_ptr', i')) \<Rightarrow>
                  readRowGroups k mem ty sc filename colname batchSize err (Suc r) rgs chpl_ptr' i'
              | Some (Throw m) \<Rightarrow> Some (Throw m)
              | Some Undefined \<Rightarrow> Some Undefined)))"

text \<open>
  \<open>numElems\<close> is a parameter of the function that its body never reads.
  \<open>ParquetFileReader::OpenFile\<close> throws when the file cannot be opened or parsed.
\<close>

definition cpp_readColumnByName ::
  "arrow_defs \<Rightarrow> (nat \<Rightarrow> nat \<Rightarrow> bool) \<Rightarrow> file_system \<Rightarrow> string \<Rightarrow> 64 word list \<Rightarrow> string \<Rightarrow>
   int \<Rightarrow> int \<Rightarrow> (int \<times> string option \<times> 64 word list) outcome option" where
  "cpp_readColumnByName k mem fs filename chpl_arr colname numElems batchSize =
     (let (ty, err) = cpp_getType k fs filename colname in
      if ty = ARROWINT64 k \<or> ty = ARROWINT32 k \<or> ty = ARROWUINT64 k then
        (case fs filename of
           Unopenable m \<Rightarrow> Some (Throw m)
         | Unparsable m \<Rightarrow> Some (Throw m)
         | Unconvertible f m \<Rightarrow>
             readRowGroups k mem ty (schema f) filename colname batchSize err 0 (row_groups f) chpl_arr 0
         | Parquet f \<Rightarrow>
             readRowGroups k mem ty (schema f) filename colname batchSize err 0 (row_groups f) chpl_arr 0)
      else Some (Return (ARROWUNDEFINED k, err, chpl_arr)))"

section \<open>cpp_writeColumnToParquet\<close>

text \<open>
  The library calls of the write path that can fail, each with the message of its failure
  (\<open>None\<close>: the call succeeds): \<open>FileOutputStream::Open\<close> returns an error result,
  \<open>WriteBatch\<close> on the row group of the given number and \<open>ParquetFileWriter::Close\<close>
  throw a \<open>ParquetException\<close>, \<open>FileOutputStream::Close\<close> returns an error status.
\<close>

record out_lib =
  Open_error :: "string \<Rightarrow> string option"
  WriteBatch_error :: "nat \<Rightarrow> string option"
  file_writer_Close_error :: "string option"
  out_file_Close_error :: "string option"

text \<open>The row group with one Int64 column chunk that holds the values \<open>vs\<close>.\<close>

definition int64_row_group :: "64 word list \<Rightarrow> row_group" where
  "int64_row_group vs = \<lparr>rg_rows = length vs, rg_chunks = [Int64Chunk vs]\<rparr>"

text \<open>
  \<open>WriteBatch(batchSize, nullptr, nullptr, &chpl_ptr[i])\<close> into the row group number \<open>r\<close>:
  it encodes the \<open>batchSize\<close> values from position \<open>i\<close> on. Reading outside the caller's
  array, or a negative count, is undefined behaviour.
\<close>

definition WriteBatch :: "out_lib \<Rightarrow> nat \<Rightarrow> 64 word list \<Rightarrow> int \<Rightarrow> int \<Rightarrow> row_group outcome" where
  "WriteBatch lib r chpl_ptr i batchSize =
     (if batchSize < 0 \<or> i < 0 \<or> int (length chpl_ptr) < i + batchSize then Undefined
      else (case WriteBatch_error lib r of
              Some m \<Rightarrow> Throw m
            | None \<Rightarrow> Return (int64_row_group (take (nat batchSize) (drop (nat i) chpl_ptr)))))"

text \<open>Lines 202 to 204: the size of the next row group.\<close>

definition nextBatchSize :: "int \<Rightarrow> int \<Rightarrow> int" where
  "nextBatchSize rowGroupSize numLeft = (if numLeft < rowGroupSize then numLeft else rowGroupSize)"

text \<open>The \<open>while (numLeft > 0)\<close> loop; \<open>gs\<close> are the row groups appended so far.\<close>

partial_function (option) writeLoop ::
  "out_lib \<Rightarrow> 64 word list \<Rightarrow> int \<Rightarrow> row_group list \<Rightarrow> int \<Rightarrow> int \<Rightarrow> row_group list outcome option" where
  "writeLoop lib chpl_ptr rowGroupSize gs i numLeft =
     (if numLeft > 0 then
        (let batchSize = nextBatchSize rowGroupSize numLeft in
         case WriteBatch lib (length gs) chpl_ptr i batchSize of
           Return g \<Rightarrow> writeLoop lib chpl_ptr rowGroupSize (gs @ [g]) (i + batchSize) (numLeft - batchSize)
         | Throw m \<Rightarrow> Some (Throw m)
         | Undefined \<Rightarrow> Some Undefined)
      else Some (Return gs))"

text \<open>
  The result is the return code, \<open>*errMsg\<close> and the file that the path holds afterwards
  (\<open>None\<close> when the write failed and the content is indeterminate).
  The output file is opened with \<open>PARQUET_ASSIGN_OR_THROW\<close>, which throws on an error result;
  \<open>file_writer->Close()\<close> throws; only \<open>out_file->Close()\<close> goes through
  \<open>ARROWSTATUS_OK\<close>.
\<close>

definition cpp_writeColumnToParquet ::
  "arrow_defs \<Rightarrow> out_lib \<Rightarrow> string \<Rightarrow> 64 word list \<Rightarrow> int \<Rightarrow> string \<Rightarrow> int \<Rightarrow> int \<Rightarrow> int \<Rightarrow>
   (int \<times> string option \<times> parquet_file option) outcome option" where
  "cpp_writeColumnToParquet k lib filename chpl_arr colnum dsetname numelems rowGroupSize dtype =
     (case Open_error lib filename of
        Some m \<Rightarrow> Some (Throw m)
      | None \<Rightarrow>
          (let fields =
                 (if dtype = 1
                  then [\<lparr>col_name = dsetname, col_phys = PQ_INT64, col_conv = CT_NONE\<rparr>]
                  else [\<lparr>col_name = dsetname, col_phys = PQ_INT64, col_conv = CT_UINT_64\<rparr>]) in
           case writeLoop lib chpl_arr rowGroupSize [] 0 numelems of
             None \<Rightarrow> None
           | Some (Throw m) \<Rightarrow> Some (Throw m)
           | Some Undefined \<Rightarrow> Some Undefined
           | Some (Return gs) \<Rightarrow>
               (case file_writer_Close_error lib of
                  Some m \<Rightarrow> Some (Throw m)
                | None \<Rightarrow>
                    (case out_file_Close_error lib of
                       Some m \<Rightarrow> Some (Return (ARROWERROR k, Some m, None))
                     | None \<Rightarrow> Some (Return (0, None, Some \<lparr>schema = fields, row_groups = gs\<rparr>))))))"

text \<open>A library in which every call of the write path succeeds.\<close>

definition no_faults :: out_lib where
  "no_faults = \<lparr>Open_error = (\<lambda>_. None), WriteBatch_error = (\<lambda>_. None),
                file_writer_Close_error = None, out_file_Close_error = None\<rparr>"

section \<open>Auxiliary definitions\<close>

text \<open>
  Consecutive pieces of \<open>n\<close> elements, the last one possibly shorter: the row groups
  that the write loop is expected to produce.
\<close>

function chop :: "nat \<Rightarrow> 'a list \<Rightarrow> 'a list list" where
  "chop n xs = (if n = 0 \<or> xs = [] then [] else take n xs # chop n (drop n xs))"
  by pat_completeness auto
termination
  by (relation "measure (\<lambda>(n, xs). length xs)") auto

declare chop.simps [simp del]

text \<open>An allocator that never fails.\<close>

definition malloc_succeeds :: "nat \<Rightarrow> nat \<Rightarrow> bool" where
  "malloc_succeeds r n = True"

text \<open>One assignment of the result codes, and the file of a five-element example.\<close>

definition example_defs :: arrow_defs where
  "example_defs = \<lparr>ARROWINT64 = 0, ARROWINT32 = 1, ARROWUINT64 = 2, ARROWTIMESTAMP = 3,
                    ARROWUNDEFINED = -1, ARROWERROR = -1\<rparr>"

definition example_file :: parquet_file where
  "example_file =
     \<lparr>schema = [\<lparr>col_name = ''c'', col_phys = PQ_INT64, col_conv = CT_NONE\<rparr>],
      row_groups = [int64_row_group [1, 2], int64_row_group [3, 4], int64_row_group [5]]\<rparr>"

definition example_uint64_file :: parquet_file where
  "example_uint64_file =
     \<lparr>schema = [\<lparr>col_name = ''c'', col_phys = PQ_INT64, col_conv = CT_UINT_64\<rparr>],
      row_groups = [int64_row_group [2 ^ 64 - 1], int64_row_group [7]]\<rparr>"

definition example_int32_file :: parquet_file where
  "example_int32_file =
     \<lparr>schema = [\<lparr>col_name = ''a'', col_phys = PQ_INT64, col_conv = CT_NONE\<rparr>,
                \<lparr>col_name = ''n'', col_phys = PQ_INT32, col_conv = CT_NONE\<rparr>],
      row_groups = [\<lparr>rg_rows = 2, rg_chunks = [Int64Chunk [10, 20], Int32Chunk [- 1, 5]]\<rparr>,
                    \<lparr>rg_rows = 1, rg_chunks = [Int64Chunk [30], Int32Chunk [- 2147483648]]\<rparr>]\<rparr>"

definition example_other_file :: parquet_file where
  "example_other_file =
     \<lparr>schema = [\<lparr>col_name = ''s'', col_phys = PQ_OTHER, col_conv = CT_NONE\<rparr>],
      row_groups = [\<lparr>rg_rows = 1, rg_chunks = [OtherChunk]\<rparr>]\<rparr>"

section \<open>The caller's array\<close>



lemma store_length: "i + length vs \<le> length arr \<Longrightarrow> length (store arr i vs) = length arr"
  by (simp add: store_def)

lemma store_Nil: "store arr i [] = arr"
  by (simp add: store_def)

lemma store_store:
  assumes "i + length a + length b \<le> length arr"
  shows "store (store arr i a) (i + length a) b = store arr i (a @ b)"
proof -
  have i: "i \<le> length arr" using assms by simp
  have m: "min (length arr) i = i" "min i (length arr) = i" using i by simp_all
  show ?thesis by (simp add: store_def m ac_simps)
qed

lemma readInt64_ok:
  "0 < bs \<Longrightarrow> i + length rem \<le> length buf \<Longrightarrow>
   readInt64 bs rem buf i = Some (Return (store buf i rem, i + length rem))"
proof (induction "length rem" arbitrary: rem buf i rule: less_induct)
  case less
  show ?case
  proof (cases "rem = []")
    case True
    then show ?thesis by (subst readInt64.simps) (simp add: store_Nil)
  next
    case False
    define n where "n = ReadBatch bs rem"
    have n: "0 < n" "n \<le> length rem"
      using False less.prems(1) by (auto simp: n_def ReadBatch_def)
    have len: "length (take n rem) = n" using n by simp
    have fits: "i + n + length (drop n rem) \<le> length (store buf i (take n rem))"
      using n less.prems(2) by (simp add: store_length)
    have "readInt64 bs (drop n rem) (store buf i (take n rem)) (i + n)
          = Some (Return (store (store buf i (take n rem)) (i + n) (drop n rem), i + n + length (drop n rem)))"
      using n fits by (intro less.hyps) (auto simp: less.prems(1))
    also have "store (store buf i (take n rem)) (i + n) (drop n rem) = store buf i rem"
      using store_store [of i "take n rem" "drop n rem" buf] n less.prems(2) by (simp add: len)
    also have "i + n + length (drop n rem) = i + length rem" using n by simp
    finally have rec: "readInt64 bs (drop n rem) (store buf i (take n rem)) (i + n)
          = Some (Return (store buf i rem, i + length rem))" .
    have nofl: "\<not> length buf < i + n" using n less.prems(2) by simp
    show ?thesis
      by (subst readInt64.simps) (simp add: False Let_def n_def [symmetric] nofl rec)
  qed
qed

text \<open>
  With a batch size of 0 or less \<open>ReadBatch\<close> delivers nothing and \<open>HasNext\<close> stays
  true: on a chunk that is not empty the loop does not return.
\<close>

lemma readInt64_stuck:
  assumes run: "readInt64 bs rem buf i = Some r"
  shows "\<not> (bs \<le> 0 \<and> rem \<noteq> [] \<and> i \<le> length buf)"
proof (rule readInt64.raw_induct
    [where P = "\<lambda>bs rem buf i r. \<not> (bs \<le> 0 \<and> rem \<noteq> [] \<and> i \<le> length buf)", OF _ run], goal_cases)
  case (1 f bs rem buf i r)
  show ?case
  proof
    assume a: "bs \<le> 0 \<and> rem \<noteq> [] \<and> i \<le> length buf"
    then have z: "ReadBatch bs rem = 0" by (simp add: ReadBatch_def)
    have ne: "rem \<noteq> []" and fit: "i \<le> length buf" using a by simp_all
    have "f bs rem buf i = Some r"
      using 1(2) ne fit by (simp add: z store_Nil)
    from 1(1) [OF this] show False using a by simp
  qed
qed

lemma readInt64_nonpos_batch:
  "bs \<le> 0 \<Longrightarrow> rem \<noteq> [] \<Longrightarrow> i \<le> length buf \<Longrightarrow> readInt64 bs rem buf i = None"
  using readInt64_stuck [of bs rem buf i] by (cases "readInt64 bs rem buf i") auto


lemma widen_store:
  "p + length xs \<le> length buf \<Longrightarrow> widen xs buf p = store buf p (map scast xs)"
proof (induction xs arbitrary: buf p)
  case Nil
  then show ?case by (simp add: store_Nil)
next
  case (Cons x xs)
  then have "widen xs (buf[p := scast x]) (Suc p) = store (buf[p := scast x]) (Suc p) (map scast xs)"
    by (intro Cons.IH) simp
  then show ?case using Cons.prems
    by (simp add: store_def take_Suc_conv_app_nth)
qed

lemma readInt32_ok:
  "0 < bs \<Longrightarrow> nat bs \<le> cap \<Longrightarrow> i + length rem \<le> length buf \<Longrightarrow>
   readInt32 cap bs rem buf i = Some (Return (store buf i (map scast rem), i + length rem))"
proof (induction "length rem" arbitrary: rem buf i rule: less_induct)
  case less
  show ?case
  proof (cases "rem = []")
    case True
    then show ?thesis by (subst readInt32.simps) (simp add: store_Nil)
  next
    case False
    define n where "n = ReadBatch bs rem"
    define tmp :: "64 word list" where "tmp = map scast (take n rem)"
    have n: "0 < n" "n \<le> length rem"
      using False less.prems(1) by (auto simp: n_def ReadBatch_def)
    have room: "\<not> cap < n"
      using less.prems(2) by (simp add: n_def ReadBatch_def)
    have len: "length tmp = n" using n by (simp add: tmp_def)
    have w: "widen (take n rem) buf i = store buf i tmp"
      unfolding tmp_def using n less.prems(3) by (intro widen_store) simp
    have fits: "i + n + length (drop n rem) \<le> length (store buf i tmp)"
      using n less.prems(3) by (simp add: store_length len)
    have "readInt32 cap bs (drop n rem) (store buf i tmp) (i + n)
          = Some (Return (store (store buf i tmp) (i + n) (map scast (drop n rem)), i + n + length (drop n rem)))"
      using n fits by (intro less.hyps) (auto simp: less.prems(1,2))
    also have "store (store buf i tmp) (i + n) (map scast (drop n rem)) = store buf i (tmp @ map scast (drop n rem))"
      using store_store [of i tmp "map scast (drop n rem)" buf] n less.prems(3) by (simp add: len)
    also have "tmp @ map scast (drop n rem) = map scast rem"
      unfolding tmp_def by (simp flip: map_append)
    also have "i + n + length (drop n rem) = i + length rem" using n by simp
    finally have rec: "readInt32 cap bs (drop n rem) (store buf i tmp) (i + n)
          = Some (Return (store buf i (map scast rem), i + length rem))" .
    have nofl: "\<not> length buf < i + n" using n less.prems(3) by simp
    show ?thesis
      by (subst readInt32.simps) (simp add: False Let_def n_def [symmetric] room nofl rec w)
  qed
qed

text \<open>With a batch size below \<open>2^62\<close> the byte count does not wrap.\<close>

lemma tmpArr_capacity_ok:
  assumes "0 < bs" "bs < 2 ^ 62" "malloc (4 * nat bs)"
  shows "tmpArr_capacity malloc bs = nat bs"
proof -
  have "bs mod 2 ^ 64 = bs" using assms(1,2) by simp
  moreover have "nat bs * 4 < 2 ^ 64" using assms(1,2) by simp
  ultimately show ?thesis using assms(3) by (simp add: tmpArr_capacity_def mult.commute)
qed

lemma readRowGroups_int64:
  "0 < bs \<Longrightarrow> 0 \<le> ColumnIndex sc col \<Longrightarrow> ty = ARROWINT64 k \<or> ty = ARROWUINT64 k \<Longrightarrow>
   map (\<lambda>rg. Column rg (ColumnIndex sc col)) rgs = map (\<lambda>vs. Some (Int64Chunk vs)) vss \<Longrightarrow>
   i + length (concat vss) \<le> length buf \<Longrightarrow>
   readRowGroups k mem ty sc fn col bs err r rgs buf i = Some (Return (0, err, store buf i (concat vss)))"
proof (induction vss arbitrary: rgs buf i r)
  case Nil
  then show ?case by (simp add: store_Nil)
next
  case (Cons vs vss)
  from Cons.prems(4) obtain rg rgs' where rgs: "rgs = rg # rgs'"
    and c: "Column rg (ColumnIndex sc col) = Some (Int64Chunk vs)"
    and rest: "map (\<lambda>rg. Column rg (ColumnIndex sc col)) rgs' = map (\<lambda>vs. Some (Int64Chunk vs)) vss"
    by (auto simp: map_eq_Cons_conv)
  have fit: "i + length vs \<le> length buf" using Cons.prems(5) by simp
  have ch: "readChunk k (mem r) ty bs (Int64Chunk vs) buf i = Some (Return (store buf i vs, i + length vs))"
    using Cons.prems(3) readInt64_ok [OF Cons.prems(1) fit] by (auto simp: readChunk_def)
  have "readRowGroups k mem ty sc fn col bs err (Suc r) rgs' (store buf i vs) (i + length vs)
        = Some (Return (0, err, store (store buf i vs) (i + length vs) (concat vss)))"
    using Cons.prems fit by (intro Cons.IH rest) (simp_all add: store_length)
  also have "store (store buf i vs) (i + length vs) (concat vss) = store buf i (concat (vs # vss))"
    using store_store [of i vs "concat vss" buf] Cons.prems(5) by simp
  finally show ?case using Cons.prems(2) by (simp add: rgs c ch Let_def)
qed

lemma readRowGroups_int32:
  "0 < bs \<Longrightarrow> 0 \<le> ColumnIndex sc col \<Longrightarrow> ty \<noteq> ARROWINT64 k \<Longrightarrow> ty \<noteq> ARROWUINT64 k \<Longrightarrow>
   map (\<lambda>rg. Column rg (ColumnIndex sc col)) rgs = map (\<lambda>vs. Some (Int32Chunk vs)) vss \<Longrightarrow>
   i + length (concat vss) \<le> length buf \<Longrightarrow> bs < 2 ^ 62 \<Longrightarrow> \<forall>r. mem r (4 * nat bs) \<Longrightarrow>
   readRowGroups k mem ty sc fn col bs err r rgs buf i
     = Some (Return (0, err, store buf i (map scast (concat vss))))"
proof (induction vss arbitrary: rgs buf i r)
  case Nil
  then show ?case by (simp add: store_Nil)
next
  case (Cons vs vss)
  from Cons.prems(5) obtain rg rgs' where rgs: "rgs = rg # rgs'"
    and c: "Column rg (ColumnIndex sc col) = Some (Int32Chunk vs)"
    and rest: "map (\<lambda>rg. Column rg (ColumnIndex sc col)) rgs' = map (\<lambda>vs. Some (Int32Chunk vs)) vss"
    by (auto simp: map_eq_Cons_conv)
  define ws :: "64 word list" where "ws = map scast vs"
  have lws: "length ws = length vs" by (simp add: ws_def)
  have fit: "i + length vs \<le> length buf" using Cons.prems(6) by simp
  have cap: "tmpArr_capacity (mem r) bs = nat bs"
    using Cons.prems(1,7,8) by (intro tmpArr_capacity_ok) simp_all
  have "readInt32 (nat bs) bs vs buf i = Some (Return (store buf i ws, i + length vs))"
    unfolding ws_def using Cons.prems(1) fit by (intro readInt32_ok) simp_all
  then have ch: "readChunk k (mem r) ty bs (Int32Chunk vs) buf i = Some (Return (store buf i ws, i + length vs))"
    using Cons.prems(3,4) by (simp add: readChunk_def cap)
  have "readRowGroups k mem ty sc fn col bs err (Suc r) rgs' (store buf i ws) (i + length vs)
        = Some (Return (0, err, store (store buf i ws) (i + length vs) (map scast (concat vss))))"
    using Cons.prems fit by (intro Cons.IH rest) (simp_all add: store_length lws)
  also have "store (store buf i ws) (i + length vs) (map scast (concat vss)) = store buf i (ws @ map scast (concat vss))"
    using store_store [of i ws "map scast (concat vss)" buf] Cons.prems(6) by (simp add: lws)
  also have "ws @ map scast (concat vss) = map scast (concat (vs # vss))" by (simp add: ws_def)
  finally show ?case using Cons.prems(2) by (simp add: rgs c ch Let_def)
qed

section \<open>Pieces of a list\<close>



lemma chop_Nil: "chop n [] = []"
  by (simp add: chop.simps)

lemma chop_step: "0 < n \<Longrightarrow> xs \<noteq> [] \<Longrightarrow> chop n xs = take n xs # chop n (drop n xs)"
  by (subst chop.simps) simp

lemma concat_chop: "0 < n \<Longrightarrow> concat (chop n xs) = xs"
proof (induction n xs rule: chop.induct)
  case (1 n xs)
  show ?case
  proof (cases "xs = []")
    case True
    then show ?thesis by (simp add: chop_Nil)
  next
    case False
    then show ?thesis using 1 by (simp add: chop_step)
  qed
qed

lemma chop_butlast:
  "0 < n \<Longrightarrow> j + 1 < length (chop n xs) \<Longrightarrow> length (chop n xs ! j) = n"
proof (induction n xs arbitrary: j rule: chop.induct)
  case (1 n xs)
  show ?case
  proof (cases "xs = []")
    case True
    then show ?thesis using "1.prems" by (simp add: chop_Nil)
  next
    case False
    have st: "chop n xs = take n xs # chop n (drop n xs)" using False "1.prems"(1) by (simp add: chop_step)
    have ne: "chop n (drop n xs) \<noteq> []" using "1.prems"(2) st by auto
    then have "drop n xs \<noteq> []" by (auto simp: chop_Nil)
    then have long: "n \<le> length xs" by simp
    show ?thesis
    proof (cases j)
      case 0
      then show ?thesis using st long by simp
    next
      case (Suc j')
      then have "j' + 1 < length (chop n (drop n xs))" using "1.prems"(2) st by simp
      then have "length (chop n (drop n xs) ! j') = n"
        using "1.IH" False "1.prems"(1) by simp
      then show ?thesis using st Suc by simp
    qed
  qed
qed

lemma chop_last:
  "0 < n \<Longrightarrow> xs \<noteq> [] \<Longrightarrow>
   length (last (chop n xs)) = (if length xs mod n = 0 then n else length xs mod n)"
proof (induction n xs rule: chop.induct)
  case (1 n xs)
  have st: "chop n xs = take n xs # chop n (drop n xs)" using "1.prems" by (simp add: chop_step)
  show ?case
  proof (cases "drop n xs = []")
    case True
    then have le: "length xs \<le> n" by simp
    have "0 < length xs" using "1.prems" by simp
    then show ?thesis using st True le by (cases "length xs = n") (simp_all add: chop_Nil)
  next
    case False
    then have lt: "n < length xs" by simp
    have ne: "chop n (drop n xs) \<noteq> []" using False "1.prems"(1) by (simp add: chop_step)
    have "length (last (chop n (drop n xs))) =
            (if length (drop n xs) mod n = 0 then n else length (drop n xs) mod n)"
      using "1.IH" "1.prems" False by simp
    moreover have "length (drop n xs) mod n = length xs mod n"
      using lt by (simp add: le_mod_geq)
    ultimately show ?thesis using st ne by simp
  qed
qed

section \<open>The write loop\<close>

lemma nextBatchSize_pos:
  "0 < R \<Longrightarrow> 0 < numLeft \<Longrightarrow> 0 < nextBatchSize R numLeft \<and> nextBatchSize R numLeft \<le> numLeft
     \<and> nextBatchSize R numLeft \<le> R"
  by (simp add: nextBatchSize_def)

lemma chop_take_drop:
  assumes R: "0 < R" and n: "0 < numLeft" and i: "0 \<le> i" and fit: "i + numLeft \<le> int (length arr)"
  defines "b \<equiv> nextBatchSize R numLeft"
  shows "chop (nat R) (take (nat numLeft) (drop (nat i) arr)) =
         take (nat b) (drop (nat i) arr) # chop (nat R) (take (nat (numLeft - b)) (drop (nat (i + b)) arr))"
proof -
  let ?xs = "take (nat numLeft) (drop (nat i) arr)"
  have len: "length ?xs = nat numLeft" using i fit by simp
  then have ne: "?xs \<noteq> []" using n by auto
  have st: "chop (nat R) ?xs = take (nat R) ?xs # chop (nat R) (drop (nat R) ?xs)"
    using R ne by (intro chop_step) simp_all
  have t: "take (nat R) ?xs = take (nat b) (drop (nat i) arr)"
    using R n by (simp add: b_def nextBatchSize_def min_def)
  have d: "drop (nat R) ?xs = take (nat (numLeft - b)) (drop (nat (i + b)) arr)"
  proof (cases "numLeft < R")
    case True
    then show ?thesis using len by (simp add: b_def nextBatchSize_def)
  next
    case False
    then have "b = R" by (simp add: b_def nextBatchSize_def)
    then show ?thesis using R i False
      by (simp add: drop_take nat_diff_distrib nat_add_distrib add.commute)
  qed
  show ?thesis by (simp only: st t d)
qed

lemma writeLoop_result:
  assumes R: "0 < R"
  shows "0 \<le> numLeft \<Longrightarrow> 0 \<le> i \<Longrightarrow> i + numLeft \<le> int (length arr) \<Longrightarrow>
     (\<exists>m. writeLoop lib arr R gs i numLeft = Some (Throw m)) \<or>
     writeLoop lib arr R gs i numLeft =
       Some (Return (gs @ map int64_row_group (chop (nat R) (take (nat numLeft) (drop (nat i) arr)))))"
proof (induction "nat numLeft" arbitrary: numLeft i gs rule: less_induct)
  case less
  show ?case
  proof (cases "0 < numLeft")
    case False
    then have "numLeft = 0" using less.prems by simp
    then show ?thesis by (subst (2) writeLoop.simps) (simp add: chop_Nil)
  next
    case True
    define b where "b = nextBatchSize R numLeft"
    have b: "0 < b" "b \<le> numLeft" using nextBatchSize_pos [OF R True] by (simp_all add: b_def)
    define g where "g = int64_row_group (take (nat b) (drop (nat i) arr))"
    have ok: "\<not> (b < 0 \<or> i < 0 \<or> int (length arr) < i + b)"
      using b less.prems by simp
    show ?thesis
    proof (cases "WriteBatch_error lib (length gs)")
      case (Some m)
      then have "WriteBatch lib (length gs) arr i b = Throw m"
        using ok by (simp add: WriteBatch_def)
      then have "writeLoop lib arr R gs i numLeft = Some (Throw m)"
        using True by (subst writeLoop.simps) (simp add: b_def [symmetric])
      then show ?thesis by blast
    next
      case None
      then have wb: "WriteBatch lib (length gs) arr i b = Return g"
        using ok by (simp add: WriteBatch_def g_def int64_row_group_def)
      have unf: "writeLoop lib arr R gs i numLeft = writeLoop lib arr R (gs @ [g]) (i + b) (numLeft - b)"
        using True by (subst writeLoop.simps) (simp add: b_def [symmetric] wb)
      have ih: "(\<exists>m. writeLoop lib arr R (gs @ [g]) (i + b) (numLeft - b) = Some (Throw m)) \<or>
         writeLoop lib arr R (gs @ [g]) (i + b) (numLeft - b) =
           Some (Return ((gs @ [g]) @ map int64_row_group
              (chop (nat R) (take (nat (numLeft - b)) (drop (nat (i + b)) arr)))))"
        using b less.prems by (intro less.hyps) simp_all
      have ch: "chop (nat R) (take (nat numLeft) (drop (nat i) arr)) =
         take (nat b) (drop (nat i) arr) # chop (nat R) (take (nat (numLeft - b)) (drop (nat (i + b)) arr))"
        unfolding b_def using R True less.prems by (intro chop_take_drop) simp_all
      show ?thesis using ih by (simp add: unf ch g_def)
    qed
  qed
qed

lemma writeLoop_no_faults:
  assumes R: "0 < R" and nf: "\<And>r. WriteBatch_error lib r = None"
  shows "0 \<le> numLeft \<Longrightarrow> 0 \<le> i \<Longrightarrow> i + numLeft \<le> int (length arr) \<Longrightarrow>
     writeLoop lib arr R gs i numLeft \<noteq> Some (Throw m)"
proof (induction "nat numLeft" arbitrary: numLeft i gs rule: less_induct)
  case less
  show ?case
  proof (cases "0 < numLeft")
    case False
    then show ?thesis by (subst writeLoop.simps) simp
  next
    case True
    define b where "b = nextBatchSize R numLeft"
    have b: "0 < b" "b \<le> numLeft" using nextBatchSize_pos [OF R True] by (simp_all add: b_def)
    have ok: "\<not> (b < 0 \<or> i < 0 \<or> int (length arr) < i + b)"
      using b less.prems by simp
    obtain g where wb: "WriteBatch lib (length gs) arr i b = Return g"
      using ok nf by (simp add: WriteBatch_def)
    have unf: "writeLoop lib arr R gs i numLeft = writeLoop lib arr R (gs @ [g]) (i + b) (numLeft - b)"
      using True by (subst writeLoop.simps) (simp add: b_def [symmetric] wb)
    have "writeLoop lib arr R (gs @ [g]) (i + b) (numLeft - b) \<noteq> Some (Throw m)"
      using b less.prems by (intro less.hyps) simp_all
    then show ?thesis by (simp add: unf)
  qed
qed

lemma writeLoop_nonpos:
  assumes run: "writeLoop lib arr R gs i numLeft = Some r"
  shows "R \<le> 0 \<longrightarrow> 0 < numLeft \<longrightarrow> (\<forall>gs'. r \<noteq> Return gs')"
proof (rule writeLoop.raw_induct
    [where P = "\<lambda>lib arr R gs i numLeft r. R \<le> 0 \<longrightarrow> 0 < numLeft \<longrightarrow> (\<forall>gs'. r \<noteq> Return gs')",
     OF _ run], goal_cases)
  case (1 f lib arr R gs i numLeft r)
  show ?case
  proof (intro impI)
    assume R: "R \<le> 0" and n: "0 < numLeft"
    have b: "nextBatchSize R numLeft = R" using R n by (simp add: nextBatchSize_def)
    show "\<forall>gs'. r \<noteq> Return gs'"
    proof (cases "WriteBatch lib (length gs) arr i R")
      case (Return g)
      then have "f lib arr R (gs @ [g]) (i + R) (numLeft - R) = Some r"
        using 1(2) n by (simp add: b)
      moreover have "0 < numLeft - R" using R n by simp
      ultimately show ?thesis using 1(1) R by blast
    next
      case (Throw m)
      then show ?thesis using 1(2) n by (auto simp: b)
    next
      case Undefined
      then show ?thesis using 1(2) n by (auto simp: b)
    qed
  qed
qed


section \<open>Column lookup\<close>

lemma field_index_ge: "- 1 \<le> field_index sc nm"
  by (induction sc) (auto simp: Let_def)

lemma field_index_absent: "nm \<notin> col_name ` set sc \<Longrightarrow> field_index sc nm = - 1"
  by (induction sc) (auto simp: Let_def)

lemma field_index_names:
  "map col_name sc = map col_name sc' \<Longrightarrow> field_index sc nm = field_index sc' nm"
proof (induction sc arbitrary: sc')
  case Nil
  then show ?case by simp
next
  case (Cons c sc)
  then obtain c' sc'' where "sc' = c' # sc''" "col_name c = col_name c'" "map col_name sc = map col_name sc''"
    by (cases sc') auto
  then show ?case using Cons.IH [of sc''] by simp
qed

lemma writeLoop_rows:
  assumes run: "writeLoop lib arr R gs i numLeft = Some r"
  shows "0 \<le> numLeft \<longrightarrow> (\<forall>gs'. r = Return gs' \<longrightarrow>
           sum_list (map rg_rows gs') = sum_list (map rg_rows gs) + nat numLeft)"
proof (rule writeLoop.raw_induct
    [where P = "\<lambda>lib arr R gs i numLeft r. 0 \<le> numLeft \<longrightarrow> (\<forall>gs'. r = Return gs' \<longrightarrow>
           sum_list (map rg_rows gs') = sum_list (map rg_rows gs) + nat numLeft)",
     OF _ run], goal_cases)
  case (1 f lib arr R gs i numLeft r)
  show ?case
  proof (intro impI allI)
    fix gs'
    assume n0: "0 \<le> numLeft" and r: "r = Return gs'"
    show "sum_list (map rg_rows gs') = sum_list (map rg_rows gs) + nat numLeft"
    proof (cases "0 < numLeft")
      case False
      then show ?thesis using 1(2) r n0 by simp
    next
      case True
      define b where "b = nextBatchSize R numLeft"
      have bn: "b \<le> numLeft" by (simp add: b_def nextBatchSize_def)
      show ?thesis
      proof (cases "WriteBatch lib (length gs) arr i b")
        case (Return g)
        then have ok: "0 \<le> b" "0 \<le> i" "i + b \<le> int (length arr)"
          and g: "g = int64_row_group (take (nat b) (drop (nat i) arr))"
          by (auto simp: WriteBatch_def int64_row_group_def split: if_splits option.splits)
        have rows: "rg_rows g = nat b" using ok by (simp add: g int64_row_group_def)
        have "f lib arr R (gs @ [g]) (i + b) (numLeft - b) = Some r"
          using 1(2) True Return by (simp add: b_def [symmetric])
        from 1(1) [OF this]
        have "sum_list (map rg_rows gs') = sum_list (map rg_rows (gs @ [g])) + nat (numLeft - b)"
          using bn r by simp
        then show ?thesis using rows ok bn by simp
      next
        case (Throw m)
        then show ?thesis using 1(2) True r by (simp add: b_def [symmetric])
      next
        case Undefined
        then show ?thesis using 1(2) True r by (simp add: b_def [symmetric])
      qed
    qed
  qed
qed

lemma write_success:
  assumes "cpp_writeColumnToParquet k lib filename arr colnum dsetname N R dtype = Some (Return (code, err, Some f))"
  shows "code = 0 \<and> err = None \<and> writeLoop lib arr R [] 0 N = Some (Return (row_groups f)) \<and>
         schema f = [\<lparr>col_name = dsetname, col_phys = PQ_INT64,
                      col_conv = (if dtype = 1 then CT_NONE else CT_UINT_64)\<rparr>]"
  using assms
  by (auto simp: cpp_writeColumnToParquet_def Let_def split: option.splits outcome.splits if_splits)

lemma write_groups:
  assumes w: "cpp_writeColumnToParquet k lib filename arr colnum dsetname N R dtype = Some (Return (code, err, Some f))"
    and R: "1 \<le> R" and N: "0 \<le> N" "N \<le> int (length arr)"
  shows "row_groups f = map int64_row_group (chop (nat R) (take (nat N) arr))"
proof -
  have run: "writeLoop lib arr R [] 0 N = Some (Return (row_groups f))"
    using write_success [OF w] by simp
  have "(\<exists>m. writeLoop lib arr R [] 0 N = Some (Throw m)) \<or>
     writeLoop lib arr R [] 0 N =
       Some (Return ([] @ map int64_row_group (chop (nat R) (take (nat N) (drop (nat 0) arr)))))"
    using R N by (intro writeLoop_result) simp_all
  then show ?thesis using run by auto
qed

lemma Column_int64_row_group: "Column (int64_row_group vs) 0 = Some (Int64Chunk vs)"
  by (simp add: Column_def int64_row_group_def)

lemma store_0: "store buf 0 vs = vs @ drop (length vs) buf"
  by (simp add: store_def)

section \<open>Writing a column and reading it back\<close>

lemma write_succeeds:
  assumes R: "1 \<le> R" and N: "0 \<le> N" "N \<le> int (length arr)"
    and lib: "Open_error lib filename = None" "\<forall>n. WriteBatch_error lib n = None"
      "file_writer_Close_error lib = None" "out_file_Close_error lib = None"
  shows "\<exists>f. cpp_writeColumnToParquet k lib filename arr colnum dsetname N R dtype
               = Some (Return (0, None, Some f))"
proof -
  have "(\<exists>m. writeLoop lib arr R [] 0 N = Some (Throw m)) \<or>
     writeLoop lib arr R [] 0 N =
       Some (Return ([] @ map int64_row_group (chop (nat R) (take (nat N) (drop (nat 0) arr)))))"
    using R N by (intro writeLoop_result) simp_all
  moreover have "writeLoop lib arr R [] 0 N \<noteq> Some (Throw m)" for m
    using R N lib(2) by (intro writeLoop_no_faults) simp_all
  ultimately obtain gs where "writeLoop lib arr R [] 0 N = Some (Return gs)" by blast
  then show ?thesis using lib by (simp add: cpp_writeColumnToParquet_def)
qed

lemma read_after_write:
  assumes R: "1 \<le> rowGroupSize" and N: "0 \<le> N" "N \<le> int (length values)"
    and w: "cpp_writeColumnToParquet k lib filename values colnum dsetname N rowGroupSize 1
              = Some (Return (code, err, Some f))"
    and fs: "fs filename = Parquet f"
    and bs: "1 \<le> batchSize" and buf: "nat N \<le> length chpl_arr"
  shows "cpp_readColumnByName k mem fs filename chpl_arr dsetname numElems batchSize
           = Some (Return (0, None, take (nat N) values @ drop (nat N) chpl_arr))"
proof -
  define vss where "vss = chop (nat rowGroupSize) (take (nat N) values)"
  have gs: "row_groups f = map int64_row_group vss"
    unfolding vss_def using write_groups [OF w R N] .
  have sc: "schema f = [\<lparr>col_name = dsetname, col_phys = PQ_INT64, col_conv = CT_NONE\<rparr>]"
    using write_success [OF w] by simp
  have cat: "concat vss = take (nat N) values"
    unfolding vss_def using R by (intro concat_chop) simp
  have len: "length (take (nat N) values) = nat N" using N by simp
  have len': "length (concat vss) = nat N" using len by (simp only: cat)
  have ty: "cpp_getType k fs filename dsetname = (ARROWINT64 k, None)"
    by (simp add: cpp_getType_def fs sc GetFieldIndex_def type_code_def)
  have ci: "ColumnIndex (schema f) dsetname = 0" by (simp add: sc ColumnIndex_def)
  have "readRowGroups k mem (ARROWINT64 k) (schema f) filename dsetname batchSize None 0 (row_groups f) chpl_arr 0
          = Some (Return (0, None, store chpl_arr 0 (concat vss)))"
    using bs buf by (intro readRowGroups_int64) (simp_all add: ci gs Column_int64_row_group len')
  moreover have "store chpl_arr 0 (concat vss) = take (nat N) values @ drop (nat N) chpl_arr"
    using len by (simp only: store_0 cat)
  ultimately show ?thesis
    by (simp add: cpp_readColumnByName_def ty fs)
qed

text \<open>
  Claim C8. After \<open>cpp_writeColumnToParquet\<close> has successfully written \<open>N \<ge> 0\<close>
  values, \<open>cpp_getNumRows\<close> on the file returns exactly \<open>N\<close>, the sum of the rows of
  the row groups written (0 for a file without rows), and leaves \<open>*errMsg\<close> alone.
\<close>

theorem getNumRows_after_write:
  assumes N: "0 \<le> N"
    and w: "cpp_writeColumnToParquet k lib filename values colnum dsetname N rowGroupSize dtype
              = Some (Return (code, err, Some f))"
    and fs: "fs filename = Parquet f"
  shows "cpp_getNumRows k fs filename = (N, None)"
proof -
  have run: "writeLoop lib values rowGroupSize [] 0 N = Some (Return (row_groups f))"
    using write_success [OF w] by simp
  have "sum_list (map rg_rows (row_groups f)) = nat N"
    using writeLoop_rows [OF run] N by simp
  then show ?thesis using N by (simp add: cpp_getNumRows_def fs num_rows_def)
qed

lemma row_groups_of_write:
  assumes R: "1 \<le> rowGroupSize" and N: "0 \<le> N" "N \<le> int (length values)"
    and w: "cpp_writeColumnToParquet k lib filename values colnum dsetname N rowGroupSize dtype
              = Some (Return (code, err, Some f))"
  shows "\<exists>vss. row_groups f = map int64_row_group vss \<and>
           concat vss = take (nat N) values \<and>
           (\<forall>j. j + 1 < length vss \<longrightarrow> length (vss ! j) = nat rowGroupSize) \<and>
           (vss \<noteq> [] \<longrightarrow> length (last vss) =
              (if N mod rowGroupSize = 0 then nat rowGroupSize else nat (N mod rowGroupSize))) \<and>
           (vss = [] \<longleftrightarrow> N = 0)"
proof -
  define vss where "vss = chop (nat rowGroupSize) (take (nat N) values)"
  have pos: "0 < nat rowGroupSize" using R by simp
  have gs: "row_groups f = map int64_row_group vss"
    unfolding vss_def using write_groups [OF w R N] .
  have cat: "concat vss = take (nat N) values"
    unfolding vss_def using pos by (rule concat_chop)
  have len: "length (take (nat N) values) = nat N" using N by simp
  have mid: "\<forall>j. j + 1 < length vss \<longrightarrow> length (vss ! j) = nat rowGroupSize"
    unfolding vss_def using chop_butlast [OF pos] by blast
  have emp: "vss = [] \<longleftrightarrow> N = 0"
  proof
    assume "vss = []"
    then have "take (nat N) values = []" using cat by simp
    then show "N = 0" using N by auto
  next
    assume "N = 0"
    then show "vss = []" by (simp add: vss_def chop_Nil)
  qed
  have modc: "nat N mod nat rowGroupSize = nat (N mod rowGroupSize)"
    using N R by (simp add: nat_mod_distrib)
  have mnn: "0 \<le> N mod rowGroupSize" using R by simp
  have z: "(nat (N mod rowGroupSize) = 0) = (N mod rowGroupSize = 0)" using mnn by auto
  have lastc: "vss \<noteq> [] \<longrightarrow> length (last vss) =
              (if N mod rowGroupSize = 0 then nat rowGroupSize else nat (N mod rowGroupSize))"
  proof
    assume "vss \<noteq> []"
    then have ne: "take (nat N) values \<noteq> []" using emp len N by auto
    have "length (last vss) = (if length (take (nat N) values) mod nat rowGroupSize = 0
             then nat rowGroupSize else length (take (nat N) values) mod nat rowGroupSize)"
      unfolding vss_def using pos ne by (rule chop_last)
    then show "length (last vss) =
              (if N mod rowGroupSize = 0 then nat rowGroupSize else nat (N mod rowGroupSize))"
      by (simp only: len modc z)
  qed
  show ?thesis using gs cat mid lastc emp by blast
qed


text \<open>
  Claim C1. Writing \<open>N\<close> 64-bit signed values (\<open>dtype = 1\<close>) with a row-group size
  \<open>rowGroupSize \<ge> 1\<close> and reading the column back delivers exactly these \<open>N\<close> values,
  in their order, in the first \<open>N\<close> places of the caller's array; \<open>N\<close> need not be a
  multiple of \<open>rowGroupSize\<close>. The calls are valid ones: the array \<open>values\<close> holds at least \<open>N\<close>
  elements, the output array has room for \<open>N\<close> elements, and the batch size of the
  read is at least 1. When no library call of the write path fails, the write does
  return success; and whenever it returned success, the read returns the values.
\<close>

theorem write_read_roundtrip:
  assumes R: "1 \<le> rowGroupSize" and N: "0 \<le> N" "N \<le> int (length values)"
    and bs: "1 \<le> batchSize" and buf: "nat N \<le> length chpl_arr"
  shows "(Open_error lib filename = None \<and> (\<forall>n. WriteBatch_error lib n = None) \<and>
          file_writer_Close_error lib = None \<and> out_file_Close_error lib = None \<longrightarrow>
            (\<exists>f. cpp_writeColumnToParquet k lib filename values colnum dsetname N rowGroupSize 1
                   = Some (Return (0, None, Some f)))) \<and>
         (cpp_writeColumnToParquet k lib filename values colnum dsetname N rowGroupSize 1
              = Some (Return (code, err, Some f)) \<and> fs filename = Parquet f \<longrightarrow>
            cpp_readColumnByName k mem fs filename chpl_arr dsetname numElems batchSize
              = Some (Return (0, None, take (nat N) values @ drop (nat N) chpl_arr)))"
proof (intro conjI impI)
  assume "Open_error lib filename = None \<and> (\<forall>n. WriteBatch_error lib n = None) \<and>
          file_writer_Close_error lib = None \<and> out_file_Close_error lib = None"
  then show "\<exists>f. cpp_writeColumnToParquet k lib filename values colnum dsetname N rowGroupSize 1
                   = Some (Return (0, None, Some f))"
    using R N by (intro write_succeeds) simp_all
next
  assume a: "cpp_writeColumnToParquet k lib filename values colnum dsetname N rowGroupSize 1
              = Some (Return (code, err, Some f)) \<and> fs filename = Parquet f"
  from read_after_write [where fs = fs, OF R N a [THEN conjunct1] a [THEN conjunct2] bs buf]
  show "cpp_readColumnByName k mem fs filename chpl_arr dsetname numElems batchSize
              = Some (Return (0, None, take (nat N) values @ drop (nat N) chpl_arr))" .
qed

text \<open>
  Claim C5. For \<open>N \<ge> 0\<close> and \<open>rowGroupSize \<ge> 1\<close> the row groups of the written file
  hold consecutive pieces of \<open>values[0..N)\<close>: every group but the last has exactly
  \<open>rowGroupSize\<close> elements, the last one has \<open>N mod rowGroupSize\<close> elements when that
  is not zero and \<open>rowGroupSize\<close> elements otherwise, and the groups in order
  concatenate to \<open>values[0..N)\<close>. There is no group at all exactly when \<open>N = 0\<close>. When no library call of the write path
  fails, the write does return such a file.
\<close>

theorem writeColumn_row_groups:
  assumes R: "1 \<le> rowGroupSize" and N: "0 \<le> N" "N \<le> int (length values)"
  shows "(Open_error lib filename = None \<and> (\<forall>n. WriteBatch_error lib n = None) \<and>
          file_writer_Close_error lib = None \<and> out_file_Close_error lib = None \<longrightarrow>
            (\<exists>f. cpp_writeColumnToParquet k lib filename values colnum dsetname N rowGroupSize dtype
                   = Some (Return (0, None, Some f)))) \<and>
         (cpp_writeColumnToParquet k lib filename values colnum dsetname N rowGroupSize dtype
              = Some (Return (code, err, Some f)) \<longrightarrow>
            (\<exists>vss. row_groups f = map int64_row_group vss \<and>
               concat vss = take (nat N) values \<and>
               (\<forall>j. j + 1 < length vss \<longrightarrow> length (vss ! j) = nat rowGroupSize) \<and>
               (vss \<noteq> [] \<longrightarrow> length (last vss) =
                  (if N mod rowGroupSize = 0 then nat rowGroupSize else nat (N mod rowGroupSize))) \<and>
               (vss = [] \<longleftrightarrow> N = 0)))"
proof (intro conjI impI)
  assume "Open_error lib filename = None \<and> (\<forall>n. WriteBatch_error lib n = None) \<and>
          file_writer_Close_error lib = None \<and> out_file_Close_error lib = None"
  then show "\<exists>f. cpp_writeColumnToParquet k lib filename values colnum dsetname N rowGroupSize dtype
                   = Some (Return (0, None, Some f))"
    using R N by (intro write_succeeds) simp_all
next
  assume w: "cpp_writeColumnToParquet k lib filename values colnum dsetname N rowGroupSize dtype
              = Some (Return (code, err, Some f))"
  from row_groups_of_write [OF R N w]
  show "\<exists>vss. row_groups f = map int64_row_group vss \<and>
               concat vss = take (nat N) values \<and>
               (\<forall>j. j + 1 < length vss \<longrightarrow> length (vss ! j) = nat rowGroupSize) \<and>
               (vss \<noteq> [] \<longrightarrow> length (last vss) =
                  (if N mod rowGroupSize = 0 then nat rowGroupSize else nat (N mod rowGroupSize))) \<and>
               (vss = [] \<longleftrightarrow> N = 0)" .
qed

section \<open>The five-element example\<close>

lemma example_write:
  "cpp_writeColumnToParquet example_defs no_faults ''f'' [1, 2, 3, 4, 5] 0 ''c'' 5 2 1
     = Some (Return (0, None, Some example_file))"
  by (simp add: cpp_writeColumnToParquet_def no_faults_def writeLoop.simps WriteBatch_def
      nextBatchSize_def example_file_def int64_row_group_def)

theorem write_read_roundtrip_witness:
  "(\<exists>f. cpp_writeColumnToParquet example_defs no_faults ''f'' [1, 2, 3, 4, 5] 0 ''c'' 5 2 1
          = Some (Return (0, None, Some f))) \<and>
   cpp_writeColumnToParquet example_defs no_faults ''f'' [1, 2, 3, 4, 5] 0 ''c'' 5 2 1
     = Some (Return (0, None, Some example_file)) \<and>
   cpp_readColumnByName example_defs malloc_succeeds (\<lambda>_. Parquet example_file) ''f'' [0, 0, 0, 0, 0, 9] ''c'' 5 3
     = Some (Return (0, None, [1, 2, 3, 4, 5, 9]))"
  using write_read_roundtrip [of 2 5 "[1, 2, 3, 4, 5]" 3 "[0, 0, 0, 0, 0, 9]" no_faults "''f''"
      example_defs 0 "''c''" 0 None example_file "\<lambda>_. Parquet example_file" malloc_succeeds 5] example_write
  by (simp add: no_faults_def)

theorem getNumRows_after_write_witness:
  "cpp_writeColumnToParquet example_defs no_faults ''f'' [1, 2, 3, 4, 5] 0 ''c'' 5 2 1
     = Some (Return (0, None, Some example_file)) \<and>
   cpp_getNumRows example_defs (\<lambda>_. Parquet example_file) ''f'' = (5, None)"
  using getNumRows_after_write [of 5 example_defs no_faults "''f''" "[1, 2, 3, 4, 5]" 0 "''c''" 2 1 0 None
      example_file "\<lambda>_. Parquet example_file"] example_write
  by simp

theorem writeColumn_row_groups_witness:
  "(\<exists>f. cpp_writeColumnToParquet example_defs no_faults ''f'' [1, 2, 3, 4, 5] 0 ''c'' 5 2 1
          = Some (Return (0, None, Some f))) \<and>
   cpp_writeColumnToParquet example_defs no_faults ''f'' [1, 2, 3, 4, 5] 0 ''c'' 5 2 1
     = Some (Return (0, None, Some example_file)) \<and>
   (\<exists>vss. row_groups example_file = map int64_row_group vss \<and>
           concat vss = [1, 2, 3, 4, 5] \<and>
           (\<forall>j. j + 1 < length vss \<longrightarrow> length (vss ! j) = 2) \<and>
           (vss \<noteq> [] \<longrightarrow> length (last vss) = 1))"
  using writeColumn_row_groups [of 2 5 "[1, 2, 3, 4, 5]" no_faults "''f''" example_defs 0 "''c''" 1
      0 None example_file] example_write
  by (auto simp: no_faults_def)

section \<open>Unsigned 64-bit columns\<close>

lemma field_index_lt: "field_index sc nm < int (length sc)"
  by (induction sc) (auto simp: Let_def)

lemma readChunk_uint64:
  "readChunk k malloc (ARROWUINT64 k) bs ch buf i = readChunk k malloc (ARROWINT64 k) bs ch buf i"
  by (simp add: readChunk_def)

lemma readRowGroups_uint64:
  "ColumnIndex sc col = ColumnIndex sc' col \<Longrightarrow>
   readRowGroups k mem (ARROWUINT64 k) sc fn col bs err r rgs buf i =
   readRowGroups k mem (ARROWINT64 k) sc' fn col bs err r rgs buf i"
  by (induction rgs arbitrary: buf i r)
     (simp_all add: readChunk_uint64 Let_def split: option.splits outcome.splits)

text \<open>
  Claim C2. A column declared unsigned 64-bit (\<open>cpp_getType\<close> answers \<open>ARROWUINT64\<close>) is
  read exactly as the same file with the column declared signed 64-bit
  (\<open>ARROWINT64\<close>) is read: the same return code, message and array, for every batch size
  and array. With a batch size of at least 1 and room in the array, the stored words
  arrive unchanged, in order, so the 64 bits of \<open>2^64 - 1\<close> stay the 64 bits of
  \<open>2^64 - 1\<close>.
\<close>

theorem uint64_decoded_as_int64:
  assumes fs: "fs filename = Parquet f"
    and idx: "0 \<le> GetFieldIndex (schema f) colname"
    and c: "schema f ! nat (GetFieldIndex (schema f) colname) = c"
    and ct: "col_phys c = PQ_INT64" "col_conv c = CT_UINT_64"
    and fs': "fs' filename =
       Parquet (f\<lparr>schema := (schema f)[nat (GetFieldIndex (schema f) colname) := c\<lparr>col_conv := CT_NONE\<rparr>]\<rparr>)"
  shows "cpp_getType k fs filename colname = (ARROWUINT64 k, None) \<and>
         cpp_getType k fs' filename colname = (ARROWINT64 k, None) \<and>
         cpp_readColumnByName k mem fs filename chpl_arr colname numElems batchSize =
         cpp_readColumnByName k mem fs' filename chpl_arr colname numElems batchSize \<and>
         (1 \<le> batchSize \<and>
          map (\<lambda>rg. Column rg (GetFieldIndex (schema f) colname)) (row_groups f)
            = map (\<lambda>vs. Some (Int64Chunk vs)) vss \<and>
          length (concat vss) \<le> length chpl_arr \<longrightarrow>
          cpp_readColumnByName k mem fs filename chpl_arr colname numElems batchSize =
            Some (Return (0, None, concat vss @ drop (length (concat vss)) chpl_arr)))"
proof -
  define n where "n = nat (GetFieldIndex (schema f) colname)"
  define sc' where "sc' = (schema f)[n := c\<lparr>col_conv := CT_NONE\<rparr>]"
  have gi: "GetFieldIndex (schema f) colname = int n" using idx by (simp add: n_def)
  have nlt: "n < length (schema f)"
  proof (rule ccontr)
    assume "\<not> n < length (schema f)"
    then have "field_index (schema f) colname < int (length (schema f))"
      and "int (length (schema f)) \<le> int n" by (simp_all add: field_index_lt)
    then show False using gi by (simp add: GetFieldIndex_def)
  qed
  have nm: "col_name c = col_name (schema f ! n)" using c by (simp add: n_def)
  have names: "map col_name sc' = map col_name (schema f)"
    unfolding sc'_def using nm nlt by (simp add: map_update list_update_same_conv)
  have fi: "field_index sc' colname = field_index (schema f) colname"
    using names by (rule field_index_names)
  define f' where "f' = f\<lparr>schema := sc'\<rparr>"
  have f': "fs' filename = Parquet f'" using fs' by (simp add: f'_def sc'_def n_def)
  have sf': "schema f' = sc'" "row_groups f' = row_groups f" by (simp_all add: f'_def)
  have c': "sc' ! n = c\<lparr>col_conv := CT_NONE\<rparr>" using nlt by (simp add: sc'_def)
  have cn: "schema f ! n = c" using c by (simp add: n_def)
  have a1: "arrow_type_of (col_phys c) (col_conv c) = UINT64" using ct by simp
  have a2: "arrow_type_of (col_phys (c\<lparr>col_conv := CT_NONE\<rparr>)) (col_conv (c\<lparr>col_conv := CT_NONE\<rparr>)) = INT64"
    using ct by simp
  have g1: "GetFieldIndex (schema f) colname = int n" by (rule gi)
  have g2: "GetFieldIndex sc' colname = int n" using fi gi by (simp add: GetFieldIndex_def)
  have t1: "cpp_getType k fs filename colname = (ARROWUINT64 k, None)"
    using ct by (simp add: cpp_getType_def fs g1 cn type_code_def Let_def)
  have t2: "cpp_getType k fs' filename colname = (ARROWINT64 k, None)"
    using ct by (simp add: cpp_getType_def f' sf' g2 c' type_code_def Let_def)
  have ci: "ColumnIndex (schema f) colname = ColumnIndex sc' colname"
    using fi by (simp add: ColumnIndex_def)
  have r1: "cpp_readColumnByName k mem fs filename chpl_arr colname numElems batchSize =
      readRowGroups k mem (ARROWUINT64 k) (schema f) filename colname batchSize None 0 (row_groups f) chpl_arr 0"
    by (simp add: cpp_readColumnByName_def t1 fs)
  have r2: "cpp_readColumnByName k mem fs' filename chpl_arr colname numElems batchSize =
      readRowGroups k mem (ARROWINT64 k) sc' filename colname batchSize None 0 (row_groups f) chpl_arr 0"
    by (simp add: cpp_readColumnByName_def t2 f' sf')
  have eq: "cpp_readColumnByName k mem fs filename chpl_arr colname numElems batchSize =
         cpp_readColumnByName k mem fs' filename chpl_arr colname numElems batchSize"
    unfolding r1 r2 using ci by (rule readRowGroups_uint64)
  have val: "cpp_readColumnByName k mem fs filename chpl_arr colname numElems batchSize =
            Some (Return (0, None, concat vss @ drop (length (concat vss)) chpl_arr))"
    if bs: "1 \<le> batchSize"
      and chunks: "map (\<lambda>rg. Column rg (GetFieldIndex (schema f) colname)) (row_groups f)
            = map (\<lambda>vs. Some (Int64Chunk vs)) vss"
      and fit: "length (concat vss) \<le> length chpl_arr"
  proof -
    have cidx: "ColumnIndex (schema f) colname = GetFieldIndex (schema f) colname"
      by (simp add: ColumnIndex_def GetFieldIndex_def)
    have "readRowGroups k mem (ARROWUINT64 k) (schema f) filename colname batchSize None 0 (row_groups f) chpl_arr 0
          = Some (Return (0, None, store chpl_arr 0 (concat vss)))"
      using bs fit idx chunks by (intro readRowGroups_int64) (simp_all add: cidx)
    then show ?thesis by (simp only: r1 store_0)
  qed
  show ?thesis using t1 t2 eq val by blast
qed


section \<open>32-bit columns\<close>

lemma sint_widen: "sint (scast (x :: 32 word) :: 64 word) = sint x"
  by (rule sint_up_scast) (simp add: is_up)

text \<open>
  Claim C4. A column of 32-bit signed values is read into a scratch array of 32-bit
  values and copied element by element into the caller's 64-bit array with sign
  extension: every delivered element has the signed value of the stored one, so a
  stored \<open>-1\<close> arrives as the 64-bit \<open>-1\<close> and not as 4294967295. The result codes
  \<open>ARROWINT32\<close>, \<open>ARROWINT64\<close> and \<open>ARROWUINT64\<close> are taken to be different
  numbers and the array has room for the column. The scratch array is a valid one:
  the batch size is at least 1 and below \<open>2^62\<close>, so that its byte count does not
  wrap around, and its allocation succeeds for every row group.
\<close>

theorem int32_widened_with_sign:
  assumes bs: "1 \<le> batchSize" "batchSize < 2 ^ 62"
    and alloc: "\<forall>r. mem r (4 * nat batchSize)"
    and d: "ARROWINT32 k \<noteq> ARROWINT64 k" "ARROWINT32 k \<noteq> ARROWUINT64 k"
    and fs: "fs filename = Parquet f"
    and idx: "0 \<le> GetFieldIndex (schema f) colname"
    and c: "col_phys (schema f ! nat (GetFieldIndex (schema f) colname)) = PQ_INT32"
           "col_conv (schema f ! nat (GetFieldIndex (schema f) colname)) = CT_NONE"
    and chunks: "map (\<lambda>rg. Column rg (GetFieldIndex (schema f) colname)) (row_groups f)
                   = map (\<lambda>vs. Some (Int32Chunk vs)) vss"
    and fit: "length (concat vss) \<le> length chpl_arr"
  shows "\<exists>out. cpp_readColumnByName k mem fs filename chpl_arr colname numElems batchSize
                  = Some (Return (0, None, out)) \<and>
               out = map scast (concat vss) @ drop (length (concat vss)) chpl_arr \<and>
               (\<forall>j < length (concat vss). sint (out ! j) = sint (concat vss ! j))"
proof -
  define out :: "64 word list" where "out = map scast (concat vss) @ drop (length (concat vss)) chpl_arr"
  have ne: "GetFieldIndex (schema f) colname \<noteq> - 1" using idx by simp
  have ty: "cpp_getType k fs filename colname = (ARROWINT32 k, None)"
    using c ne by (simp add: cpp_getType_def fs type_code_def Let_def)
  have cidx: "ColumnIndex (schema f) colname = GetFieldIndex (schema f) colname"
    by (simp add: ColumnIndex_def GetFieldIndex_def)
  have "readRowGroups k mem (ARROWINT32 k) (schema f) filename colname batchSize None 0 (row_groups f) chpl_arr 0
          = Some (Return (0, None, store chpl_arr 0 (map scast (concat vss))))"
    using bs fit idx chunks d alloc by (intro readRowGroups_int32) (simp_all add: cidx)
  then have r: "cpp_readColumnByName k mem fs filename chpl_arr colname numElems batchSize
                  = Some (Return (0, None, out))"
    by (simp add: cpp_readColumnByName_def ty fs store_0 out_def)
  have "sint (out ! j) = sint (concat vss ! j)" if "j < length (concat vss)" for j
    using that by (simp add: out_def nth_append sint_widen)
  then show ?thesis using r out_def by blast
qed

theorem int32_widened_with_sign_witness:
  "cpp_readColumnByName example_defs malloc_succeeds (\<lambda>_. Parquet example_int32_file) ''f'' [0, 0, 0, 9] ''n'' 3 2
     = Some (Return (0, None, [- 1, 5, - 2147483648, 9])) \<and>
   sint (- 1 :: 64 word) = - 1 \<and> (- 1 :: 64 word) \<noteq> 4294967295"
proof -
  have gi: "GetFieldIndex (schema example_int32_file) ''n'' = 1"
    by (simp add: GetFieldIndex_def example_int32_file_def)
  have "\<exists>out. cpp_readColumnByName example_defs malloc_succeeds (\<lambda>_. Parquet example_int32_file) ''f'' [0, 0, 0, 9] ''n'' 3 2
                  = Some (Return (0, None, out)) \<and>
               out = map scast (concat [[- 1, 5], [- 2147483648 :: 32 word]])
                       @ drop (length (concat [[- 1, 5], [- 2147483648 :: 32 word]])) [0, 0, 0, 9] \<and>
               (\<forall>j < length (concat [[- 1, 5], [- 2147483648 :: 32 word]]).
                   sint (out ! j) = sint (concat [[- 1, 5], [- 2147483648 :: 32 word]] ! j))"
    by (rule int32_widened_with_sign [where f = example_int32_file])
       (simp_all add: GetFieldIndex_def example_int32_file_def Column_def example_defs_def
          malloc_succeeds_def)
  then have "cpp_readColumnByName example_defs malloc_succeeds (\<lambda>_. Parquet example_int32_file) ''f'' [0, 0, 0, 9] ''n'' 3 2
     = Some (Return (0, None, [scast (- 1 :: 32 word), scast (5 :: 32 word), scast (- 2147483648 :: 32 word), 9]))"
    by simp
  moreover have "scast (- 1 :: 32 word) = (- 1 :: 64 word)" by simp
  moreover have "scast (5 :: 32 word) = (5 :: 64 word)" by simp
  moreover have "scast (- 2147483648 :: 32 word) = (- 2147483648 :: 64 word)" by simp
  ultimately show ?thesis by simp
qed

text \<open>
  With \<open>batchSize = 2^62\<close> the byte count \<open>batchSize * sizeof(int32_t)\<close> wraps to 0:
  the scratch array holds nothing and the first batch is written past its end.
\<close>

lemma int32_scratch_wraps:
  "tmpArr_capacity (malloc_succeeds 0) (2 ^ 62) = 0 \<and>
   cpp_readColumnByName example_defs malloc_succeeds (\<lambda>_. Parquet example_int32_file) ''f''
     [0, 0, 0, 9] ''n'' 3 (2 ^ 62) = Some Undefined"
proof -
  have cap: "tmpArr_capacity (malloc_succeeds 0) 4611686018427387904 = 0"
    by (simp add: tmpArr_capacity_def malloc_succeeds_def)
  have t: "cpp_getType example_defs (\<lambda>_. Parquet example_int32_file) ''f'' ''n'' = (1, None)"
    by (simp add: cpp_getType_def example_int32_file_def GetFieldIndex_def type_code_def example_defs_def)
  have rd: "readInt32 0 4611686018427387904 [- 1, 5] [0, 0, 0, 9] 0 = Some Undefined"
    by (subst readInt32.simps) (simp add: ReadBatch_def)
  have "cpp_readColumnByName example_defs malloc_succeeds (\<lambda>_. Parquet example_int32_file) ''f''
     [0, 0, 0, 9] ''n'' 3 (2 ^ 62) = Some Undefined"
    by (simp add: cpp_readColumnByName_def t)
       (simp add: example_defs_def example_int32_file_def ColumnIndex_def Column_def readChunk_def
          cap rd)
  then show ?thesis using cap by simp
qed

section \<open>Error results of the read side\<close>

text \<open>
  Claim C6. For a file that opens and a column name that its schema does not have,
  \<open>cpp_getType\<close> returns \<open>ARROWERROR\<close> together with a message, and the message
  contains the requested column name and the file path.
\<close>

theorem getType_column_not_found:
  assumes fs: "fs filename = Parquet f"
    and absent: "colname \<notin> col_name ` set (schema f)"
  shows "cpp_getType k fs filename colname
           = (ARROWERROR k, Some (''Dataset: '' @ colname @ '' does not exist in file: '' @ filename)) \<and>
         sublist colname (''Dataset: '' @ colname @ '' does not exist in file: '' @ filename) \<and>
         sublist filename (''Dataset: '' @ colname @ '' does not exist in file: '' @ filename)"
proof -
  have "GetFieldIndex (schema f) colname = - 1"
    using absent by (simp add: GetFieldIndex_def field_index_absent)
  then have "cpp_getType k fs filename colname
           = (ARROWERROR k, Some (''Dataset: '' @ colname @ '' does not exist in file: '' @ filename))"
    by (simp add: cpp_getType_def fs not_found_msg_def)
  moreover have "sublist colname (''Dataset: '' @ colname @ '' does not exist in file: '' @ filename)"
    unfolding sublist_def by blast
  moreover have "sublist filename (''Dataset: '' @ colname @ '' does not exist in file: '' @ filename)"
    unfolding sublist_def
    by (rule exI [of _ "''Dataset: '' @ colname @ '' does not exist in file: ''"], rule exI [of _ "[]"]) simp
  ultimately show ?thesis by simp
qed

theorem getType_column_not_found_witness:
  "cpp_getType example_defs (\<lambda>_. Parquet example_file) ''data.parquet'' ''missing''
     = (- 1, Some ''Dataset: missing does not exist in file: data.parquet'') \<and>
   sublist ''missing'' ''Dataset: missing does not exist in file: data.parquet'' \<and>
   sublist ''data.parquet'' ''Dataset: missing does not exist in file: data.parquet''"
  using getType_column_not_found [of "\<lambda>_. Parquet example_file" "''data.parquet''" example_file
      "''missing''" example_defs]
  by (simp add: example_file_def example_defs_def)

text \<open>
  Claim C7. When the type code that \<open>cpp_getType\<close> resolves is none of
  \<open>ARROWINT64\<close>, \<open>ARROWINT32\<close>, \<open>ARROWUINT64\<close>, \<open>cpp_readColumnByName\<close>
  returns \<open>ARROWUNDEFINED\<close> and the caller's array is exactly what it was.
\<close>

theorem readColumn_unsupported_type:
  assumes "fst (cpp_getType k fs filename colname) \<notin> {ARROWINT64 k, ARROWINT32 k, ARROWUINT64 k}"
  shows "cpp_readColumnByName k mem fs filename chpl_arr colname numElems batchSize
           = Some (Return (ARROWUNDEFINED k, snd (cpp_getType k fs filename colname), chpl_arr))"
  using assms by (cases "cpp_getType k fs filename colname") (simp add: cpp_readColumnByName_def)

theorem readColumn_unsupported_type_witness:
  "fst (cpp_getType example_defs (\<lambda>_. Parquet example_other_file) ''f'' ''s'') \<notin> {0, 1, 2} \<and>
   cpp_readColumnByName example_defs malloc_succeeds (\<lambda>_. Parquet example_other_file) ''f'' [4, 5, 6] ''s'' 3 2
     = Some (Return (- 1, None, [4, 5, 6]))"
proof -
  have t: "cpp_getType example_defs (\<lambda>_. Parquet example_other_file) ''f'' ''s'' = (- 1, None)"
    by (simp add: cpp_getType_def example_other_file_def GetFieldIndex_def type_code_def example_defs_def)
  have "fst (cpp_getType example_defs (\<lambda>_. Parquet example_other_file) ''f'' ''s'')
          \<notin> {ARROWINT64 example_defs, ARROWINT32 example_defs, ARROWUINT64 example_defs}"
    by (simp add: t) (simp add: example_defs_def)
  from readColumn_unsupported_type [OF this, of malloc_succeeds "[4, 5, 6]" 3 2] show ?thesis
    by (simp add: t) (simp add: example_defs_def)
qed

text \<open>
  Claim C10. The result of \<open>cpp_readColumnByName\<close> (return code, message, the array
  after the call, or that the call does not return) does not depend on \<open>numElems\<close>.
\<close>

theorem readColumn_ignores_numElems:
  "cpp_readColumnByName k mem fs filename chpl_arr colname numElems batchSize =
   cpp_readColumnByName k mem fs filename chpl_arr colname numElems' batchSize"
  by (simp add: cpp_readColumnByName_def)


section \<open>Termination of the write loop\<close>

lemma writeLoop_zero:
  assumes run: "writeLoop lib arr R gs i numLeft = Some r"
  shows "\<not> (R = 0 \<and> 0 < numLeft \<and> 0 \<le> i \<and> i \<le> int (length arr) \<and> (\<forall>n. WriteBatch_error lib n = None))"
proof (rule writeLoop.raw_induct
    [where P = "\<lambda>lib arr R gs i numLeft r.
        \<not> (R = 0 \<and> 0 < numLeft \<and> 0 \<le> i \<and> i \<le> int (length arr) \<and> (\<forall>n. WriteBatch_error lib n = None))",
     OF _ run], goal_cases)
  case (1 f lib arr R gs i numLeft r)
  show ?case
  proof
    assume a: "R = 0 \<and> 0 < numLeft \<and> 0 \<le> i \<and> i \<le> int (length arr) \<and> (\<forall>n. WriteBatch_error lib n = None)"
    then have n: "0 < numLeft" and b: "nextBatchSize R numLeft = 0"
      by (simp_all add: nextBatchSize_def)
    have wb: "WriteBatch lib (length gs) arr i 0 = Return (int64_row_group [])"
      using a by (simp add: WriteBatch_def)
    have "f lib arr R (gs @ [int64_row_group []]) i numLeft = Some r"
      using 1(2) n by (simp add: b wb)
    from 1(1) [OF this] show False using a by simp
  qed
qed

text \<open>
  Claim C9. With \<open>rowGroupSize \<ge> 1\<close> the row-group loop of
  \<open>cpp_writeColumnToParquet\<close> ends (with the row groups, or with an exception of
  \<open>WriteBatch\<close>): every iteration takes a positive number of elements,
  \<open>min rowGroupSize numLeft\<close>, from \<open>numLeft\<close>. With \<open>rowGroupSize \<le> 0\<close> and elements
  to write, \<open>numLeft\<close> never gets smaller and the loop never completes; with
  \<open>rowGroupSize = 0\<close> and a library that does not fail it does not return at all.
\<close>

theorem writeLoop_termination:
  "(1 \<le> R \<and> 0 \<le> numLeft \<and> 0 \<le> i \<and> i + numLeft \<le> int (length arr) \<longrightarrow>
      (\<exists>r. writeLoop lib arr R gs i numLeft = Some r \<and> r \<noteq> Undefined)) \<and>
   (1 \<le> R \<and> 0 < numLeft \<longrightarrow>
      0 < nextBatchSize R numLeft \<and> numLeft - nextBatchSize R numLeft < numLeft) \<and>
   (R \<le> 0 \<and> 0 < numLeft \<longrightarrow>
      numLeft \<le> numLeft - nextBatchSize R numLeft \<and>
      (\<forall>gs'. writeLoop lib arr R gs i numLeft \<noteq> Some (Return gs'))) \<and>
   (R = 0 \<and> 0 < numLeft \<and> 0 \<le> i \<and> i \<le> int (length arr) \<and> (\<forall>n. WriteBatch_error lib n = None) \<longrightarrow>
      writeLoop lib arr R gs i numLeft = None)"
proof (intro conjI impI)
  assume a: "1 \<le> R \<and> 0 \<le> numLeft \<and> 0 \<le> i \<and> i + numLeft \<le> int (length arr)"
  then have "(\<exists>m. writeLoop lib arr R gs i numLeft = Some (Throw m)) \<or>
     writeLoop lib arr R gs i numLeft =
       Some (Return (gs @ map int64_row_group (chop (nat R) (take (nat numLeft) (drop (nat i) arr)))))"
    by (intro writeLoop_result) simp_all
  then show "\<exists>r. writeLoop lib arr R gs i numLeft = Some r \<and> r \<noteq> Undefined" by auto
next
  assume "1 \<le> R \<and> 0 < numLeft"
  then show "0 < nextBatchSize R numLeft" by (simp add: nextBatchSize_def)
next
  assume "1 \<le> R \<and> 0 < numLeft"
  then show "numLeft - nextBatchSize R numLeft < numLeft" by (simp add: nextBatchSize_def)
next
  assume "R \<le> 0 \<and> 0 < numLeft"
  then show "numLeft \<le> numLeft - nextBatchSize R numLeft" by (simp add: nextBatchSize_def)
next
  assume a: "R \<le> 0 \<and> 0 < numLeft"
  show "\<forall>gs'. writeLoop lib arr R gs i numLeft \<noteq> Some (Return gs')"
  proof (intro allI notI)
    fix gs'
    assume "writeLoop lib arr R gs i numLeft = Some (Return gs')"
    from writeLoop_nonpos [OF this] a show False by simp
  qed
next
  assume a: "R = 0 \<and> 0 < numLeft \<and> 0 \<le> i \<and> i \<le> int (length arr) \<and> (\<forall>n. WriteBatch_error lib n = None)"
  show "writeLoop lib arr R gs i numLeft = None"
  proof (cases "writeLoop lib arr R gs i numLeft")
    case None
    then show ?thesis .
  next
    case (Some r)
    from writeLoop_zero [OF this] a show ?thesis by blast
  qed
qed

theorem writeLoop_termination_witness:
  "(\<exists>r. writeLoop no_faults [1, 2, 3, 4, 5] 2 [] 0 5 = Some r \<and> r \<noteq> Undefined) \<and>
   (0 < nextBatchSize 2 5 \<and> 5 - nextBatchSize 2 5 < 5) \<and>
   (1 \<le> 1 - nextBatchSize 0 1 \<and> (\<forall>gs'. writeLoop no_faults [7] 0 [] 0 1 \<noteq> Some (Return gs'))) \<and>
   writeLoop no_faults [7] 0 [] 0 1 = None"
  using writeLoop_termination [of 2 5 0 "[1, 2, 3, 4, 5]" no_faults "[]"]
        writeLoop_termination [of 0 1 0 "[7]" no_faults "[]"]
  by (simp add: no_faults_def)

section \<open>Failures of the write path\<close>

text \<open>
  Claim C3 says that every failure of \<open>cpp_writeColumnToParquet\<close> comes back as
  \<open>ARROWERROR\<close> with a message. In the code only the failure of \<open>out_file->Close()\<close>
  does. A failure to open the output file, a failure of \<open>WriteBatch\<close> and a failure
  of \<open>file_writer->Close()\<close> leave the function as C++ exceptions.
\<close>

theorem writeColumn_failures_escape:
  "cpp_writeColumnToParquet example_defs
      (no_faults\<lparr>Open_error := \<lambda>_. Some ''IOError: Failed to open local file''\<rparr>)
      ''/no/such/dir/out.parquet'' [1, 2, 3] 0 ''c'' 3 2 1
     = Some (Throw ''IOError: Failed to open local file'') \<and>
   cpp_writeColumnToParquet example_defs
      (no_faults\<lparr>WriteBatch_error := \<lambda>_. Some ''Out of memory''\<rparr>)
      ''out.parquet'' [1, 2, 3] 0 ''c'' 3 2 1
     = Some (Throw ''Out of memory'') \<and>
   cpp_writeColumnToParquet example_defs
      (no_faults\<lparr>file_writer_Close_error := Some ''IOError: No space left on device''\<rparr>)
      ''out.parquet'' [1, 2, 3] 0 ''c'' 3 2 1
     = Some (Throw ''IOError: No space left on device'') \<and>
   cpp_writeColumnToParquet example_defs
      (no_faults\<lparr>out_file_Close_error := Some ''IOError: close failed''\<rparr>)
      ''out.parquet'' [1, 2, 3] 0 ''c'' 3 2 1
     = Some (Return (ARROWERROR example_defs, Some ''IOError: close failed'', None))"
  by (simp add: cpp_writeColumnToParquet_def no_faults_def writeLoop.simps WriteBatch_def
      nextBatchSize_def)

theorem uint64_decoded_as_int64_witness:
  "cpp_getType example_defs (\<lambda>_. Parquet example_uint64_file) ''f'' ''c'' = (2, None) \<and>
   cpp_readColumnByName example_defs malloc_succeeds (\<lambda>_. Parquet example_uint64_file) ''f'' [0, 0] ''c'' 2 1
     = Some (Return (0, None, [2 ^ 64 - 1, 7])) \<and>
   unat (2 ^ 64 - 1 :: 64 word) = 2 ^ 64 - 1"
proof -
  let ?c = "\<lparr>col_name = ''c'', col_phys = PQ_INT64, col_conv = CT_UINT_64\<rparr>"
  let ?fs = "\<lambda>_ :: string. Parquet example_uint64_file"
  let ?fs' = "\<lambda>_ :: string. Parquet (example_uint64_file\<lparr>schema := (schema example_uint64_file)
       [nat (GetFieldIndex (schema example_uint64_file) ''c'') := ?c\<lparr>col_conv := CT_NONE\<rparr>]\<rparr>)"
  let ?vss = "[[2 ^ 64 - 1], [7 :: 64 word]]"
  have gi: "GetFieldIndex (schema example_uint64_file) ''c'' = 0"
    by (simp add: GetFieldIndex_def example_uint64_file_def)
  have A: "cpp_getType example_defs ?fs ''f'' ''c'' = (ARROWUINT64 example_defs, None) \<and>
        cpp_getType example_defs ?fs' ''f'' ''c'' = (ARROWINT64 example_defs, None) \<and>
        cpp_readColumnByName example_defs malloc_succeeds ?fs ''f'' [0, 0] ''c'' 2 1 =
        cpp_readColumnByName example_defs malloc_succeeds ?fs' ''f'' [0, 0] ''c'' 2 1 \<and>
        (1 \<le> (1::int) \<and>
         map (\<lambda>rg. Column rg (GetFieldIndex (schema example_uint64_file) ''c'')) (row_groups example_uint64_file)
            = map (\<lambda>vs. Some (Int64Chunk vs)) ?vss \<and>
         length (concat ?vss) \<le> length [0 :: 64 word, 0] \<longrightarrow>
         cpp_readColumnByName example_defs malloc_succeeds ?fs ''f'' [0, 0] ''c'' 2 1 =
           Some (Return (0, None, concat ?vss @ drop (length (concat ?vss)) [0, 0])))"
    by (rule uint64_decoded_as_int64 [where f = example_uint64_file and c = ?c])
       (simp_all add: gi, simp_all add: example_uint64_file_def)
  have pre: "map (\<lambda>rg. Column rg (GetFieldIndex (schema example_uint64_file) ''c'')) (row_groups example_uint64_file)
            = map (\<lambda>vs. Some (Int64Chunk vs)) ?vss"
    by (simp add: gi) (simp add: example_uint64_file_def Column_def int64_row_group_def)
  have "ARROWUINT64 example_defs = 2" by (simp add: example_defs_def)
  then have t: "cpp_getType example_defs ?fs ''f'' ''c'' = (2, None)"
    using A [THEN conjunct1] by (simp only:)
  note imp = A [THEN conjunct2, THEN conjunct2, THEN conjunct2, rule_format]
  have "cpp_readColumnByName example_defs malloc_succeeds ?fs ''f'' [0, 0] ''c'' 2 1 =
           Some (Return (0, None, concat ?vss @ drop (length (concat ?vss)) [0, 0]))"
    by (rule imp) (intro conjI pre, simp_all)
  then have r: "cpp_readColumnByName example_defs malloc_succeeds ?fs ''f'' [0, 0] ''c'' 2 1
             = Some (Return (0, None, [2 ^ 64 - 1, 7]))"
    by simp
  have u: "unat (2 ^ 64 - 1 :: 64 word) = 2 ^ 64 - 1" by simp
  show ?thesis using t r u by blast
qed


end
